theory Spec2Isabelle
  imports Main
begin

section \<open>The watch firmware's input handling (boot.py)\<close>

text \<open>
  The module keeps its state in global variables. They are collected in one record that
  every function takes and returns. Python integers are unbounded, so coordinates, menu
  indices and clock readings are \<open>int\<close>; \<open>multitap_count\<close> only ever holds \<open>0\<close> or a
  remainder modulo a list length and is a \<open>nat\<close>.
\<close>

subsection \<open>Errors and Python's container reads\<close>

datatype py_error = KeyError | IndexError | ZeroDivisionError

text \<open>\<open>xs[i]\<close>: a negative index counts from the end, an index out of range raises.\<close>

definition list_get :: "'a list \<Rightarrow> int \<Rightarrow> py_error + 'a" where
  "list_get xs i =
     (if 0 \<le> i \<and> i < int (length xs) then Inr (xs ! nat i)
      else if - int (length xs) \<le> i \<and> i < 0 then Inr (xs ! nat (int (length xs) + i))
      else Inl IndexError)"

text \<open>
  A dict literal is kept as the association list of its entries; \<open>d[k]\<close> raises on a
  missing key. The program runs on MicroPython, whose dict is an open-addressing hash
  table, and \<open>list(d.keys())\<close> walks that table from slot 0 upwards: the keys come in the
  order of their slots, not in the order of the literal. Which slot a key gets depends on
  the string hash of the build, so the functions that read a key list take the slot
  assignment as a parameter \<open>slot\<close>, with \<open>slot d k\<close> the slot of key \<open>k\<close> in the table of
  dict \<open>d\<close>. Whatever the assignment, every key is listed once.
\<close>

type_synonym key_table = "(string \<times> string list) list"

type_synonym slots = "key_table \<Rightarrow> string \<Rightarrow> nat"

definition dict_keys :: "slots \<Rightarrow> key_table \<Rightarrow> string list" where
  "dict_keys slot d = sort_key (slot d) (map fst d)"

definition dict_get :: "key_table \<Rightarrow> string \<Rightarrow> py_error + string list" where
  "dict_get d k = (case map_of d k of None \<Rightarrow> Inl KeyError | Some v \<Rightarrow> Inr v)"

subsection \<open>Global state\<close>

text \<open>The dict \<open>get_touch\<close> returns: \<open>{'x': x, 'y': y, 'points': touch_points}\<close>.\<close>

record touch_sample =
  touch_x :: int
  touch_y :: int
  touch_points :: int

record watch =
  main_menu :: int
  sub_menu :: int
  last_touch_x :: "int option"
  last_touch_y :: "int option"
  search_text :: string
  keyboard_mode :: string
  multitap_key :: "string option"
  multitap_count :: nat
  multitap_time :: int

text \<open>The values the module assigns at import time.\<close>

definition boot :: watch where
  "boot = \<lparr> main_menu = 0, sub_menu = 0, last_touch_x = None, last_touch_y = None,
            search_text = [], keyboard_mode = ''abc'', multitap_key = None,
            multitap_count = 0, multitap_time = 0 \<rparr>"

subsection \<open>Key tables\<close>

definition multitap_letters :: key_table where
  "multitap_letters =
     [(''abc'', [''a'', ''b'', ''c'']),
      (''def'', [''d'', ''e'', ''f'']),
      (''ghi'', [''g'', ''h'', ''i'']),
      (''jkl'', [''j'', ''k'', ''l'']),
      (''mno'', [''m'', ''n'', ''o'']),
      (''pqrs'', [''p'', ''q'', ''r'', ''s'']),
      (''tuv'', [''t'', ''u'', ''v'']),
      (''wxyz'', [''w'', ''x'', ''y'', ''z'']),
      (''SPACE'', ['' ''])]"

definition multitap_letters_upper :: key_table where
  "multitap_letters_upper =
     [(''ABC'', [''A'', ''B'', ''C'']),
      (''DEF'', [''D'', ''E'', ''F'']),
      (''GHI'', [''G'', ''H'', ''I'']),
      (''JKL'', [''J'', ''K'', ''L'']),
      (''MNO'', [''M'', ''N'', ''O'']),
      (''PQRS'', [''P'', ''Q'', ''R'', ''S'']),
      (''TUV'', [''T'', ''U'', ''V'']),
      (''WXYZ'', [''W'', ''X'', ''Y'', ''Z'']),
      (''SPACE'', ['' ''])]"

definition multitap_numbers :: key_table where
  "multitap_numbers =
     [(''1'', [''1'']), (''2'', [''2'']), (''3'', [''3'']),
      (''4'', [''4'']), (''5'', [''5'']), (''6'', [''6'']),
      (''7'', [''7'']), (''8'', [''8'']), (''9'', [''9'']),
      (''0'', [''0'']), (''.'', [''.'']), (''@'', [''@''])]"

subsection \<open>The slots of a MicroPython build with 16-bit string hashes\<close>

text \<open>
  MicroPython hashes a string with \<open>hash = hash * 33 ^ byte\<close> from 5381, keeps the low 16
  bits (the default width) and replaces 0 by 1. A dict literal of \<open>n\<close> entries gets a
  table of \<open>n\<close> slots; each key is stored, in the order of the literal, in the first free
  slot from \<open>hash mod n\<close> on, wrapping round at the end of the table.
\<close>

definition qstr_hash :: "string \<Rightarrow> nat" where
  "qstr_hash s =
     (let h = fold (\<lambda>c h. xor (h * 33) (of_char c)) s 5381 mod 65536
      in if h = 0 then 1 else h)"

definition free_slot :: "nat \<Rightarrow> string option list \<Rightarrow> nat" where
  "free_slot pos table =
     (case find (\<lambda>p. table ! p = None) ([pos..<length table] @ [0..<pos]) of
        Some p \<Rightarrow> p
      | None \<Rightarrow> pos)"

definition map_store :: "string option list \<Rightarrow> string \<Rightarrow> string option list" where
  "map_store table k = table[free_slot (qstr_hash k mod length table) table := Some k]"

definition map_table :: "key_table \<Rightarrow> string option list" where
  "map_table d = foldl map_store (replicate (length d) None) (map fst d)"

definition qstr_slot :: slots where
  "qstr_slot d k = length (takeWhile (\<lambda>e. e \<noteq> Some k) (map_table d))"

subsection \<open>Menu navigation: \<open>get_max_submenus\<close> and \<open>detect_swipe\<close>\<close>

definition get_max_submenus :: "int \<Rightarrow> int" where
  "get_max_submenus menu = (if menu = 1 then 2 else 1)"

text \<open>
  \<open>detect_swipe\<close> returns nothing; the model returns the new globals together with the
  number of milliseconds it spent in \<open>time.sleep_ms\<close> before returning.
\<close>

definition detect_swipe :: "touch_sample option \<Rightarrow> watch \<Rightarrow> watch \<times> nat" where
  "detect_swipe touch_data s =
     (case touch_data of
        None \<Rightarrow> (s\<lparr>last_touch_x := None, last_touch_y := None\<rparr>, 0)
      | Some td \<Rightarrow>
          (let x = touch_x td; y = touch_y td in
           case (last_touch_x s, last_touch_y s) of
             (Some lx, Some ly) \<Rightarrow>
               (let delta_x = x - lx; delta_y = y - ly in
                if \<bar>delta_y\<bar> > 50 \<and> \<bar>delta_y\<bar> > \<bar>delta_x\<bar> then
                  (s\<lparr>main_menu := (if delta_y > 0 then (main_menu s + 1) mod 5
                                     else (main_menu s - 1) mod 5),
                     sub_menu := 0,
                     last_touch_x := None, last_touch_y := None\<rparr>, 300)
                else if \<bar>delta_x\<bar> > 40 \<and> \<bar>delta_x\<bar> > \<bar>delta_y\<bar> then
                  (let max_subs = get_max_submenus (main_menu s) in
                   (s\<lparr>sub_menu := (if max_subs > 1
                                     then (if delta_x < 0 then (sub_menu s + 1) mod max_subs
                                           else (sub_menu s - 1) mod max_subs)
                                     else sub_menu s),
                      last_touch_x := None, last_touch_y := None\<rparr>, 300))
                else (s\<lparr>last_touch_x := Some x, last_touch_y := Some y\<rparr>, 0))
           | _ \<Rightarrow> (s\<lparr>last_touch_x := Some x, last_touch_y := Some y\<rparr>, 0)))"

subsection \<open>Text entry: \<open>handle_keyboard_touch\<close>\<close>

text \<open>The layout chosen by the \<open>if\<close>/\<open>elif\<close>/\<open>else\<close> on \<open>keyboard_mode\<close>.\<close>

definition current_keys :: "string \<Rightarrow> key_table" where
  "current_keys mode =
     (if mode = ''abc'' then multitap_letters
      else if mode = ''ABC'' then multitap_letters_upper
      else multitap_numbers)"

text \<open>The two band chains; \<open>- 1\<close> is the value \<open>row\<close> and \<open>col\<close> start with.\<close>

definition grid_row :: "int \<Rightarrow> int" where
  "grid_row y =
     (if 50 \<le> y \<and> y \<le> 80 then 0
      else if 90 \<le> y \<and> y \<le> 120 then 1
      else if 130 \<le> y \<and> y \<le> 160 then 2
      else if 170 \<le> y \<and> y \<le> 200 then 3
      else - 1)"

definition grid_col :: "int \<Rightarrow> int" where
  "grid_col x =
     (if 20 \<le> x \<and> x \<le> 80 then 0
      else if 90 \<le> x \<and> x \<le> 150 then 1
      else if 160 \<le> x \<and> x \<le> 220 then 2
      else - 1)"

text \<open>
  The last two statements of the letter-key branch:
  \<open>search_text += keys[key_name][multitap_count]; multitap_time = current_time\<close>.
\<close>

definition append_candidate :: "key_table \<Rightarrow> string \<Rightarrow> int \<Rightarrow> watch \<Rightarrow> py_error + (bool \<times> watch)" where
  "append_candidate keys key_name current_time s =
     (case dict_get keys key_name of
        Inl e \<Rightarrow> Inl e
      | Inr cands \<Rightarrow>
          (case list_get cands (int (multitap_count s)) of
             Inl e \<Rightarrow> Inl e
           | Inr c \<Rightarrow>
               Inr (True, s\<lparr>search_text := search_text s @ c,
                             multitap_time := current_time\<rparr>)))"

text \<open>The multitap logic of one letter key.\<close>

definition multitap_press :: "key_table \<Rightarrow> string \<Rightarrow> int \<Rightarrow> watch \<Rightarrow> py_error + (bool \<times> watch)" where
  "multitap_press keys key_name current_time s =
     (if multitap_key s = Some key_name \<and> current_time - multitap_time s < 1000 then
        (case dict_get keys key_name of
           Inl e \<Rightarrow> Inl e
         | Inr cands \<Rightarrow>
             if length cands = 0 then Inl ZeroDivisionError
             else
               (let s1 = s\<lparr>multitap_count := (multitap_count s + 1) mod length cands\<rparr>;
                    s2 = (if length (search_text s1) > 0
                          then s1\<lparr>search_text := butlast (search_text s1)\<rparr> else s1)
                in append_candidate keys key_name current_time s2))
      else
        append_candidate keys key_name current_time
          (s\<lparr>multitap_key := Some key_name, multitap_count := 0\<rparr>))"

text \<open>
  \<open>handle_keyboard_touch(x, y)\<close>; \<open>current_time\<close> is what \<open>time.ticks_ms()\<close> returned
  at the start of the call, \<open>slot\<close> the slot assignment of the dicts.
\<close>

definition handle_keyboard_touch ::
  "slots \<Rightarrow> int \<Rightarrow> int \<Rightarrow> int \<Rightarrow> watch \<Rightarrow> py_error + (bool \<times> watch)" where
  "handle_keyboard_touch slot x y current_time s =
     (let keys = current_keys (keyboard_mode s);
          key_list = dict_keys slot keys;
          row = grid_row y;
          col = grid_col x
      in if row \<ge> 0 \<and> col \<ge> 0 then
           (let key_idx = row * 3 + col in
            if key_idx = 9 then
              Inr (True, s\<lparr>search_text := (if length (search_text s) > 0
                                              then butlast (search_text s)
                                              else search_text s),
                            multitap_key := None\<rparr>)
            else if key_idx = 10 then
              Inr (True, s\<lparr>keyboard_mode := (if keyboard_mode s = ''abc'' then ''ABC''
                                                else if keyboard_mode s = ''ABC'' then ''123''
                                                else ''abc''),
                            multitap_key := None\<rparr>)
            else if key_idx = 11 then
              Inr (True, s\<lparr>multitap_key := None\<rparr>)
            else if key_idx < int (length key_list) then
              (case list_get key_list key_idx of
                 Inl e \<Rightarrow> Inl e
               | Inr key_name \<Rightarrow> multitap_press keys key_name current_time s)
            else Inr (False, s))
         else Inr (False, s))"

subsection \<open>The touch part of the main loop\<close>

text \<open>
  One pass through the \<open>if touch_enabled:\<close> block of the \<open>while True\<close> loop, with
  \<open>touch_data\<close> the value \<open>touch.get_touch()\<close> returned and \<open>now\<close> the clock reading
  \<open>handle_keyboard_touch\<close> gets. A dict is true when it is not empty, so
  \<open>main_menu == 3 and touch_data\<close> holds for every sample. The result is whether the
  keyboard asked for a redraw, the new globals and the milliseconds \<open>detect_swipe\<close> slept.
\<close>

definition main_loop_touch ::
  "slots \<Rightarrow> touch_sample option \<Rightarrow> int \<Rightarrow> watch \<Rightarrow> py_error + (bool \<times> watch \<times> nat)" where
  "main_loop_touch slot touch_data now s =
     (case (case touch_data of
              Some td \<Rightarrow>
                if main_menu s = 3
                then handle_keyboard_touch slot (touch_x td) (touch_y td) now s
                else Inr (False, s)
            | None \<Rightarrow> Inr (False, s)) of
        Inl e \<Rightarrow> Inl e
      | Inr (drawn, s1) \<Rightarrow>
          (case detect_swipe touch_data s1 of (s2, slept) \<Rightarrow> Inr (drawn, s2, slept)))"

subsection \<open>Sequences of calls\<close>

datatype call = Detect_swipe "touch_sample option" | Handle_keyboard_touch int int int

definition do_call :: "slots \<Rightarrow> call \<Rightarrow> watch \<Rightarrow> py_error + watch" where
  "do_call slot c s =
     (case c of
        Detect_swipe touch_data \<Rightarrow> Inr (fst (detect_swipe touch_data s))
      | Handle_keyboard_touch x y current_time \<Rightarrow>
          (case handle_keyboard_touch slot x y current_time s of
             Inl e \<Rightarrow> Inl e
           | Inr (_, s') \<Rightarrow> Inr s'))"

fun run_calls :: "slots \<Rightarrow> call list \<Rightarrow> watch \<Rightarrow> py_error + watch" where
  "run_calls slot [] s = Inr s"
| "run_calls slot (c # cs) s =
     (case do_call slot c s of Inl e \<Rightarrow> Inl e | Inr s' \<Rightarrow> run_calls slot cs s')"

subsection \<open>The parts of the state the specification names\<close>

text \<open>The specification's table of submenu counts, \<open>{0:1, 1:2, 2:1, 3:1, 4:1}\<close>.\<close>

definition maxSub :: "int \<rightharpoonup> int" where
  "maxSub = map_of [(0, 1), (1, 2), (2, 1), (3, 1), (4, 1)]"

definition menu_invariant :: "watch \<Rightarrow> bool" where
  "menu_invariant s =
     (0 \<le> main_menu s \<and> main_menu s < 5 \<and>
      (case maxSub (main_menu s) of None \<Rightarrow> False | Some n \<Rightarrow> sub_menu s < n))"

text \<open>MultitapState: active cell, cycle index, time of the last press.\<close>

definition multitap_state :: "watch \<Rightarrow> string option \<times> nat \<times> int" where
  "multitap_state s = (multitap_key s, multitap_count s, multitap_time s)"

text \<open>What the text-entry engine owns, and what the menu model and the gesture classifier own.\<close>

definition text_entry_state :: "watch \<Rightarrow> string \<times> string \<times> string option \<times> nat \<times> int" where
  "text_entry_state s = (search_text s, keyboard_mode s, multitap_state s)"

definition navigation_state :: "watch \<Rightarrow> int \<times> int \<times> int option \<times> int option" where
  "navigation_state s = (main_menu s, sub_menu s, last_touch_x s, last_touch_y s)"

subsection \<open>The main loop and the clock\<close>

text \<open>The test \<open>detect_swipe\<close> makes before it changes a menu index.\<close>

definition swipe_fires :: "touch_sample option \<Rightarrow> watch \<Rightarrow> bool" where
  "swipe_fires touch_data s =
     (case (touch_data, last_touch_x s, last_touch_y s) of
        (Some td, Some lx, Some ly) \<Rightarrow>
          (let delta_x = touch_x td - lx; delta_y = touch_y td - ly in
           (\<bar>delta_y\<bar> > 50 \<and> \<bar>delta_y\<bar> > \<bar>delta_x\<bar>)
           \<or> (\<bar>delta_x\<bar> > 40 \<and> \<bar>delta_x\<bar> > \<bar>delta_y\<bar>))
      | _ \<Rightarrow> False)"

text \<open>
  The \<open>while True\<close> loop, one iteration per polled sample. The loop state carries the
  module globals, the loop's own variables, the millisecond clock and a trace of what the
  loop did and when. Only \<open>time.sleep_ms\<close> and \<open>time.sleep\<close> advance the clock here;
  whatever time drawing, the touch controller or the network take in addition makes
  later clock readings larger still. \<open>Swipe_detected b\<close> records a call of \<open>detect_swipe\<close>,
  with \<open>b\<close> telling whether the call ended in the 300 ms sleep.
\<close>

datatype activity =
  Touch_polled | Keyboard_handled | Swipe_detected bool | Data_fetched | Screen_drawn

record main_loop =
  globals :: watch
  touch_enabled :: bool
  counter :: int
  last_main :: int
  last_sub :: int
  ticks_ms :: int
  trace :: "(int \<times> activity) list"

definition log_activity :: "activity \<Rightarrow> main_loop \<Rightarrow> main_loop" where
  "log_activity a l = l\<lparr>trace := trace l @ [(ticks_ms l, a)]\<rparr>"

definition sleep_ms :: "nat \<Rightarrow> main_loop \<Rightarrow> main_loop" where
  "sleep_ms n l = l\<lparr>ticks_ms := ticks_ms l + int n\<rparr>"

text \<open>
  The \<open>if touch_enabled:\<close> block: \<open>get_touch\<close>, the keyboard on the search screen with its
  redraw, then \<open>detect_swipe\<close> with its sleep.
\<close>

definition loop_touch ::
  "slots \<Rightarrow> touch_sample option \<Rightarrow> main_loop \<Rightarrow> py_error + main_loop" where
  "loop_touch slot touch_data l =
     (let l1 = log_activity Touch_polled l in
      case main_loop_touch slot touch_data (ticks_ms l1) (globals l1) of
        Inl e \<Rightarrow> Inl e
      | Inr (drawn, s, slept) \<Rightarrow>
          (let l2 = (if touch_data \<noteq> None \<and> main_menu (globals l1) = 3
                     then log_activity Keyboard_handled l1 else l1);
               l3 = (if drawn then log_activity Screen_drawn l2 else l2);
               l4 = log_activity (Swipe_detected (slept \<noteq> 0)) l3
           in Inr (sleep_ms slept (l4\<lparr>globals := s\<rparr>))))"

text \<open>
  The whole loop body. \<open>wifi\<close> is the value of \<open>wlan and wlan.isconnected()\<close>; the
  fetches and the drawing are recorded in the trace only.
\<close>

definition loop_iteration ::
  "slots \<Rightarrow> touch_sample option \<times> bool \<Rightarrow> main_loop \<Rightarrow> py_error + main_loop" where
  "loop_iteration slot input l =
     (case input of (touch_data, wifi) \<Rightarrow>
      case (if touch_enabled l then loop_touch slot touch_data l else Inr l) of
        Inl e \<Rightarrow> Inl e
      | Inr l1 \<Rightarrow>
          (let l2 = (if counter l1 mod 6000 = 0 \<and> counter l1 > 0 \<and> wifi
                     then log_activity Data_fetched l1 else l1);
               l3 = (if counter l2 mod 3000 = 0 \<and> counter l2 > 0 \<and> wifi
                     then log_activity Data_fetched l2 else l2);
               l4 = (if main_menu (globals l3) \<noteq> last_main l3 \<or> sub_menu (globals l3) \<noteq> last_sub l3
                     then log_activity Screen_drawn
                            (l3\<lparr>last_main := main_menu (globals l3),
                                last_sub := sub_menu (globals l3)\<rparr>)
                     else if main_menu (globals l3) = 0 \<and> counter l3 mod 10 = 0
                     then log_activity Screen_drawn l3
                     else l3);
               l5 = sleep_ms 100 l4
           in Inr (l5\<lparr>counter := counter l5 + 1\<rparr>)))"

fun run_loop ::
  "slots \<Rightarrow> (touch_sample option \<times> bool) list \<Rightarrow> main_loop \<Rightarrow> py_error + main_loop" where
  "run_loop slot [] l = Inr l"
| "run_loop slot (input # inputs) l =
     (case loop_iteration slot input l of
        Inl e \<Rightarrow> Inl e
      | Inr l' \<Rightarrow> run_loop slot inputs l')"

definition boot_loop :: main_loop where
  "boot_loop = \<lparr> globals = boot, touch_enabled = True, counter = 0, last_main = - 1,
                 last_sub = - 1, ticks_ms = 0, trace = [] \<rparr>"

text \<open>
  A trace keeps the cooldown when every entry after a call of \<open>detect_swipe\<close> that fired
  is at least 300 ms later, and the clock itself is at least 300 ms past every such call.
\<close>

definition cooldown_kept :: "int \<times> activity \<Rightarrow> int \<times> activity \<Rightarrow> bool" where
  "cooldown_kept e e' = (snd e = Swipe_detected True \<longrightarrow> fst e + 300 \<le> fst e')"

definition trace_ok :: "main_loop \<Rightarrow> bool" where
  "trace_ok l =
     (sorted_wrt cooldown_kept (trace l)
      \<and> (\<forall>e \<in> set (trace l). cooldown_kept e (ticks_ms l, Touch_polled)))"

section \<open>Properties\<close>

subsection \<open>Grid lookup\<close>

lemma grid_row_nonneg_iff:
  "grid_row y \<ge> 0 \<longleftrightarrow> (50 \<le> y \<and> y \<le> 80) \<or> (90 \<le> y \<and> y \<le> 120)
     \<or> (130 \<le> y \<and> y \<le> 160) \<or> (170 \<le> y \<and> y \<le> 200)"
  by (simp add: grid_row_def)

lemma grid_col_nonneg_iff:
  "grid_col x \<ge> 0 \<longleftrightarrow> (20 \<le> x \<and> x \<le> 80) \<or> (90 \<le> x \<and> x \<le> 150) \<or> (160 \<le> x \<and> x \<le> 220)"
  by (simp add: grid_col_def)

text \<open>
  C9. A tap whose \<open>y\<close> lies in none of the row bands \<open>[50,80]\<close>, \<open>[90,120]\<close>, \<open>[130,160]\<close>,
  \<open>[170,200]\<close>, or whose \<open>x\<close> lies in none of the column bands \<open>[20,80]\<close>, \<open>[90,150]\<close>,
  \<open>[160,220]\<close> (the gaps between the bands included), makes \<open>handle_keyboard_touch\<close>
  return \<open>False\<close> with every global unchanged, whatever the clock, the state and the slots of
  the dicts.
\<close>

theorem handle_keyboard_touch_outside_bands:
  assumes "y \<notin> {50..80} \<union> {90..120} \<union> {130..160} \<union> {170..200}
           \<or> x \<notin> {20..80} \<union> {90..150} \<union> {160..220}"
  shows "handle_keyboard_touch slot x y current_time s = Inr (False, s)"
proof -
  from assms have "\<not> (grid_row y \<ge> 0 \<and> grid_col x \<ge> 0)"
    unfolding grid_row_nonneg_iff grid_col_nonneg_iff by auto
  then show ?thesis
    unfolding handle_keyboard_touch_def Let_def by (simp only: if_False)
qed

text \<open>
  \<open>x = 85\<close> lies in the gap between the first two column bands, \<open>y = 205\<close> below the
  last row band.
\<close>

theorem handle_keyboard_touch_outside_bands_witness:
  "85 \<notin> {20..80} \<union> {90..150} \<union> {160..220::int}
   \<and> handle_keyboard_touch qstr_slot 85 60 0 boot = Inr (False, boot)
   \<and> 205 \<notin> {50..80} \<union> {90..120} \<union> {130..160} \<union> {170..200::int}
   \<and> handle_keyboard_touch qstr_slot 50 205 0 boot = Inr (False, boot)"
  using handle_keyboard_touch_outside_bands [of 60 85 qstr_slot 0 boot]
    handle_keyboard_touch_outside_bands [of 205 50 qstr_slot 0 boot]
  by simp

subsection \<open>Reading the key tables\<close>

lemma dict_keys_length: "length (dict_keys slot d) = length d"
  by (simp add: dict_keys_def)

lemma dict_keys_set: "set (dict_keys slot d) = fst ` set d"
  by (simp add: dict_keys_def)

text \<open>The key at any index of the key list is a key of the dict, with its entry.\<close>

lemma dict_get_listed:
  assumes d: "distinct (map fst d)" and k: "k < length d"
  shows "\<exists>cands. (dict_keys slot d ! k, cands) \<in> set d
           \<and> dict_get d (dict_keys slot d ! k) = Inr cands"
proof -
  from k have "dict_keys slot d ! k \<in> set (dict_keys slot d)"
    by (simp add: dict_keys_length)
  then obtain cands where m: "(dict_keys slot d ! k, cands) \<in> set d"
    unfolding dict_keys_set by auto
  with d have "map_of d (dict_keys slot d ! k) = Some cands" by simp
  with m show ?thesis by (auto simp add: dict_get_def)
qed

lemma dict_get_entry:
  assumes "distinct (map fst d)" and "(key_name, cands) \<in> set d"
  shows "dict_get d key_name = Inr cands"
  using assms by (simp add: dict_get_def)

lemma list_get_nat:
  "k < length xs \<Longrightarrow> list_get xs (int k) = Inr (xs ! k)"
  by (simp add: list_get_def)

lemma multitap_letters_wf:
  "distinct (map fst multitap_letters)" "length multitap_letters = 9"
  "\<forall>e \<in> set multitap_letters. snd e \<noteq> []"
  by (simp_all add: multitap_letters_def)

lemma multitap_letters_upper_wf:
  "distinct (map fst multitap_letters_upper)" "length multitap_letters_upper = 9"
  "\<forall>e \<in> set multitap_letters_upper. snd e \<noteq> []"
  by (simp_all add: multitap_letters_upper_def)

lemma multitap_numbers_wf:
  "distinct (map fst multitap_numbers)" "length multitap_numbers = 12"
  "\<forall>e \<in> set multitap_numbers. snd e \<noteq> []"
  by (simp_all add: multitap_numbers_def)

lemma current_keys_wf:
  "distinct (map fst (current_keys m))" "9 \<le> length (current_keys m)"
  "\<forall>e \<in> set (current_keys m). snd e \<noteq> []"
  by (simp_all add: current_keys_def multitap_letters_wf multitap_letters_upper_wf multitap_numbers_wf)

text \<open>What one press of a key of the table does.\<close>

lemma multitap_press_key:
  assumes g: "dict_get keys key_name = Inr cands" and ne: "cands \<noteq> []"
  shows "multitap_press keys key_name current_time s =
     Inr (True,
       if multitap_key s = Some key_name \<and> current_time - multitap_time s < 1000
       then s\<lparr>multitap_count := (multitap_count s + 1) mod length cands,
              search_text := butlast (search_text s)
                 @ cands ! ((multitap_count s + 1) mod length cands),
              multitap_time := current_time\<rparr>
       else s\<lparr>multitap_key := Some key_name, multitap_count := 0,
              search_text := search_text s @ cands ! 0,
              multitap_time := current_time\<rparr>)"
proof -
  have pos: "0 < length cands" using ne by simp
  have i0: "list_get cands (int 0) = Inr (cands ! 0)"
    using pos by (rule list_get_nat)
  have i1: "list_get cands (int ((multitap_count s + 1) mod length cands))
              = Inr (cands ! ((multitap_count s + 1) mod length cands))"
    by (rule list_get_nat) (use pos in simp)
  show ?thesis
    using g i0 i1 ne
    by (cases "search_text s = []")
       (simp_all add: multitap_press_def append_candidate_def Let_def)
qed

lemma handle_keyboard_touch_letter_key:
  assumes r: "0 \<le> grid_row y" and c: "0 \<le> grid_col x"
    and k: "grid_row y * 3 + grid_col x = int k" and k9: "k < 9"
  shows "handle_keyboard_touch slot x y current_time s =
           multitap_press (current_keys (keyboard_mode s))
             (dict_keys slot (current_keys (keyboard_mode s)) ! k) current_time s"
proof -
  have len: "k < length (dict_keys slot (current_keys (keyboard_mode s)))"
    using k9 current_keys_wf(2) [of "keyboard_mode s"] by (simp add: dict_keys_length)
  then have "list_get (dict_keys slot (current_keys (keyboard_mode s))) (int k)
               = Inr (dict_keys slot (current_keys (keyboard_mode s)) ! k)"
    by (rule list_get_nat)
  then show ?thesis
    using r c k k9 len by (simp add: handle_keyboard_touch_def Let_def)
qed

subsection \<open>What a tap on each cell does\<close>

text \<open>
  A tap on one of the nine cells of rows 0 to 2, with \<open>key_name\<close> the key the key list
  has at the cell's index and \<open>cands\<close> its entry in the table.
\<close>

lemma handle_keyboard_touch_character_cell:
  assumes r: "0 \<le> grid_row y" and c: "0 \<le> grid_col x"
    and k: "grid_row y * 3 + grid_col x = int k" and k9: "k < 9"
    and n: "dict_keys slot (current_keys (keyboard_mode s)) ! k = key_name"
    and e: "(key_name, cands) \<in> set (current_keys (keyboard_mode s))"
  shows "handle_keyboard_touch slot x y current_time s =
     Inr (True,
       if multitap_key s = Some key_name \<and> current_time - multitap_time s < 1000
       then s\<lparr>multitap_count := (multitap_count s + 1) mod length cands,
              search_text := butlast (search_text s)
                 @ cands ! ((multitap_count s + 1) mod length cands),
              multitap_time := current_time\<rparr>
       else s\<lparr>multitap_key := Some key_name, multitap_count := 0,
              search_text := search_text s @ cands ! 0,
              multitap_time := current_time\<rparr>)"
proof -
  let ?keys = "current_keys (keyboard_mode s)"
  have ne: "cands \<noteq> []"
    using current_keys_wf(3) [of "keyboard_mode s"] e by force
  have g: "dict_get ?keys key_name = Inr cands"
    using current_keys_wf(1) e by (rule dict_get_entry)
  show ?thesis
    using handle_keyboard_touch_letter_key [OF r c k k9, of slot current_time s]
      multitap_press_key [OF g ne, of current_time s]
    by (simp only: n)
qed

lemma grid_row_band:
  "50 \<le> y \<Longrightarrow> y \<le> 80 \<Longrightarrow> grid_row y = 0"
  "90 \<le> y \<Longrightarrow> y \<le> 120 \<Longrightarrow> grid_row y = 1"
  "130 \<le> y \<Longrightarrow> y \<le> 160 \<Longrightarrow> grid_row y = 2"
  "170 \<le> y \<Longrightarrow> y \<le> 200 \<Longrightarrow> grid_row y = 3"
  by (simp_all add: grid_row_def)

lemma grid_col_band:
  "20 \<le> x \<Longrightarrow> x \<le> 80 \<Longrightarrow> grid_col x = 0"
  "90 \<le> x \<Longrightarrow> x \<le> 150 \<Longrightarrow> grid_col x = 1"
  "160 \<le> x \<Longrightarrow> x \<le> 220 \<Longrightarrow> grid_col x = 2"
  by (simp_all add: grid_col_def)

lemma grid_row_range: "grid_row y \<in> {- 1, 0, 1, 2, 3}"
  by (simp add: grid_row_def)

lemma grid_col_range: "grid_col x \<in> {- 1, 0, 1, 2}"
  by (simp add: grid_col_def)

text \<open>The bottom row never reads the key list.\<close>

lemma handle_keyboard_touch_special_cells:
  assumes "grid_row y = 3" and "0 \<le> grid_col x"
  shows "handle_keyboard_touch slot x y current_time s =
     Inr (True,
       if grid_col x = 0 then s\<lparr>search_text := butlast (search_text s), multitap_key := None\<rparr>
       else if grid_col x = 1 then
         s\<lparr>keyboard_mode := (if keyboard_mode s = ''abc'' then ''ABC''
                              else if keyboard_mode s = ''ABC'' then ''123'' else ''abc''),
           multitap_key := None\<rparr>
       else s\<lparr>multitap_key := None\<rparr>)"
proof -
  from grid_col_range [of x] assms(2)
  consider "grid_col x = 0" | "grid_col x = 1" | "grid_col x = 2" by auto
  then show ?thesis
  proof cases
    case 1
    then show ?thesis using assms(1)
      by (cases "search_text s = []") (simp_all add: handle_keyboard_touch_def Let_def)
  next
    case 2
    then show ?thesis using assms(1)
      by (simp add: handle_keyboard_touch_def Let_def)
  next
    case 3
    then show ?thesis using assms(1)
      by (simp add: handle_keyboard_touch_def Let_def)
  qed
qed

text \<open>
  Every call returns a value, whatever the slots, and the menu position and the anchor
  are as before.
\<close>

lemma handle_keyboard_touch_total:
  "\<exists>drawn s'. handle_keyboard_touch slot x y current_time s = Inr (drawn, s')
      \<and> navigation_state s' = navigation_state s"
proof (cases "0 \<le> grid_row y \<and> 0 \<le> grid_col x")
  case False
  then have "handle_keyboard_touch slot x y current_time s = Inr (False, s)"
    unfolding handle_keyboard_touch_def Let_def by (simp only: if_False)
  then show ?thesis by blast
next
  case True
  show ?thesis
  proof (cases "grid_row y = 3")
    case True
    with \<open>0 \<le> grid_row y \<and> 0 \<le> grid_col x\<close> show ?thesis
      by (auto simp add: handle_keyboard_touch_special_cells navigation_state_def)
  next
    case False
    with True grid_row_range [of y] grid_col_range [of x]
    have "\<exists>k<9. grid_row y * 3 + grid_col x = int k"
      by (intro exI [of _ "nat (grid_row y * 3 + grid_col x)"]) auto
    then obtain k where k: "k < 9" "grid_row y * 3 + grid_col x = int k" by blast
    let ?keys = "current_keys (keyboard_mode s)"
    have "k < length ?keys"
      using k(1) current_keys_wf(2) [of "keyboard_mode s"] by simp
    from dict_get_listed [OF current_keys_wf(1) this, of slot]
    obtain cands where e: "(dict_keys slot ?keys ! k, cands) \<in> set ?keys" by blast
    show ?thesis
      using True handle_keyboard_touch_character_cell [OF _ _ k(2) k(1) refl e, of current_time]
      by (auto simp add: navigation_state_def)
  qed
qed

subsection \<open>The key lists of the build with 16-bit string hashes\<close>

lemma qstr_letters:
  "dict_keys qstr_slot multitap_letters
     = [''abc'', ''wxyz'', ''def'', ''tuv'', ''pqrs'', ''SPACE'', ''jkl'', ''mno'', ''ghi'']"
proof -
  have "map_table multitap_letters
     = map Some [''abc'', ''wxyz'', ''def'', ''tuv'', ''pqrs'', ''SPACE'', ''jkl'', ''mno'', ''ghi'']"
    by (simp add: map_table_def map_store_def free_slot_def qstr_hash_def multitap_letters_def)
  then show ?thesis
    unfolding dict_keys_def qstr_slot_def by (simp add: multitap_letters_def)
qed


subsection \<open>The multitap example\<close>

text \<open>
  C3. The cluster \<open>def\<close> has a cell whatever the slots: it is at some index \<open>k < 9\<close> of
  the key list. From any state in lower-case mode with an empty buffer and no active key
  (the state after boot is one), three taps anywhere in that cell: at 0 ms the buffer
  becomes \<open>d\<close>; at 500 ms the \<open>d\<close> is removed and \<open>e\<close> appended, so the buffer is \<open>e\<close>; at
  1600 ms, 1100 ms after the previous press, a fresh character starts and the buffer is
  \<open>ed\<close>. Each tap returns \<open>True\<close>.
\<close>

theorem multitap_def_example:
  assumes cell: "k < 9" "dict_keys slot multitap_letters ! k = ''def''"
    and tap1: "0 \<le> grid_row y1" "0 \<le> grid_col x1" "grid_row y1 * 3 + grid_col x1 = int k"
    and tap2: "0 \<le> grid_row y2" "0 \<le> grid_col x2" "grid_row y2 * 3 + grid_col x2 = int k"
    and tap3: "0 \<le> grid_row y3" "0 \<le> grid_col x3" "grid_row y3 * 3 + grid_col x3 = int k"
    and start: "keyboard_mode s = ''abc''" "search_text s = []" "multitap_key s = None"
  shows "(\<exists>j<9. dict_keys slot multitap_letters ! j = ''def'')
       \<and> (let s1 = s\<lparr>multitap_key := Some ''def'', multitap_count := 0,
                      search_text := ''d'', multitap_time := 0\<rparr>;
             s2 = s1\<lparr>multitap_count := 1, search_text := ''e'', multitap_time := 500\<rparr>;
             s3 = s2\<lparr>multitap_count := 0, search_text := ''ed'', multitap_time := 1600\<rparr>
         in handle_keyboard_touch slot x1 y1 0 s = Inr (True, s1)
          \<and> handle_keyboard_touch slot x2 y2 500 s1 = Inr (True, s2)
          \<and> handle_keyboard_touch slot x3 y3 1600 s2 = Inr (True, s3))"
proof
  have "''def'' \<in> set (dict_keys slot multitap_letters)"
    unfolding dict_keys_set by (simp add: multitap_letters_def)
  then obtain j where "j < length (dict_keys slot multitap_letters)"
    "dict_keys slot multitap_letters ! j = ''def''"
    unfolding in_set_conv_nth by blast
  then show "\<exists>j<9. dict_keys slot multitap_letters ! j = ''def''"
    by (auto simp add: dict_keys_length multitap_letters_wf(2))
next
  define s1 where "s1 = s\<lparr>multitap_key := Some ''def'', multitap_count := 0,
                      search_text := ''d'', multitap_time := 0\<rparr>"
  define s2 where "s2 = s1\<lparr>multitap_count := 1, search_text := ''e'', multitap_time := 500\<rparr>"
  define s3 where "s3 = s2\<lparr>multitap_count := 0, search_text := ''ed'', multitap_time := 1600\<rparr>"
  have press: "handle_keyboard_touch slot x y t u =
     Inr (True,
       if multitap_key u = Some ''def'' \<and> t - multitap_time u < 1000
       then u\<lparr>multitap_count := (multitap_count u + 1) mod 3,
              search_text := butlast (search_text u)
                 @ [''d'', ''e'', ''f''] ! ((multitap_count u + 1) mod 3),
              multitap_time := t\<rparr>
       else u\<lparr>multitap_key := Some ''def'', multitap_count := 0,
              search_text := search_text u @ ''d'', multitap_time := t\<rparr>)"
    if "0 \<le> grid_row y" "0 \<le> grid_col x" "grid_row y * 3 + grid_col x = int k"
      "keyboard_mode u = ''abc''" for x y t u
  proof -
    have n: "dict_keys slot (current_keys (keyboard_mode u)) ! k = ''def''"
      using that(4) cell(2) by (simp add: current_keys_def)
    have e: "(''def'', [''d'', ''e'', ''f'']) \<in> set (current_keys (keyboard_mode u))"
      using that(4) by (simp add: current_keys_def multitap_letters_def)
    from handle_keyboard_touch_character_cell [OF that(1-3) cell(1) n e, of t]
    show ?thesis by simp
  qed
  have a: "handle_keyboard_touch slot x1 y1 0 s = Inr (True, s1)"
    using press [OF tap1 start(1), of 0] start by (simp add: s1_def)
  have b: "handle_keyboard_touch slot x2 y2 500 s1 = Inr (True, s2)"
    using press [OF tap2, of s1 500] start by (simp add: s1_def s2_def)
  have c: "handle_keyboard_touch slot x3 y3 1600 s2 = Inr (True, s3)"
    using press [OF tap3, of s2 1600] start by (simp add: s1_def s2_def s3_def)
  show "let s1 = s\<lparr>multitap_key := Some ''def'', multitap_count := 0,
                      search_text := ''d'', multitap_time := 0\<rparr>;
             s2 = s1\<lparr>multitap_count := 1, search_text := ''e'', multitap_time := 500\<rparr>;
             s3 = s2\<lparr>multitap_count := 0, search_text := ''ed'', multitap_time := 1600\<rparr>
         in handle_keyboard_touch slot x1 y1 0 s = Inr (True, s1)
          \<and> handle_keyboard_touch slot x2 y2 500 s1 = Inr (True, s2)
          \<and> handle_keyboard_touch slot x3 y3 1600 s2 = Inr (True, s3)"
    using a b c unfolding s1_def s2_def s3_def Let_def by simp
qed

text \<open>
  With 16-bit string hashes the key list of the lower-case layout has \<open>def\<close> at index 2,
  the cell of row 0, column 2.
\<close>

theorem multitap_def_example_witness:
  "dict_keys qstr_slot multitap_letters ! 2 = ''def''
   \<and> handle_keyboard_touch qstr_slot 190 60 0 boot = Inr (True, boot\<lparr>multitap_key := Some ''def'',
       multitap_count := 0, search_text := ''d'', multitap_time := 0\<rparr>)
   \<and> handle_keyboard_touch qstr_slot 160 80 500 (boot\<lparr>multitap_key := Some ''def'',
       multitap_count := 0, search_text := ''d'', multitap_time := 0\<rparr>)
     = Inr (True, boot\<lparr>multitap_key := Some ''def'',
       multitap_count := 1, search_text := ''e'', multitap_time := 500\<rparr>)
   \<and> handle_keyboard_touch qstr_slot 220 50 1600 (boot\<lparr>multitap_key := Some ''def'',
       multitap_count := 1, search_text := ''e'', multitap_time := 500\<rparr>)
     = Inr (True, boot\<lparr>multitap_key := Some ''def'',
       multitap_count := 0, search_text := ''ed'', multitap_time := 1600\<rparr>)"
  using multitap_def_example [where slot = qstr_slot and k = 2 and s = boot
      and ?x1.0 = 190 and ?y1.0 = 60 and ?x2.0 = 160 and ?y2.0 = 80 and ?x3.0 = 220 and ?y3.0 = 50]
  by (simp add: qstr_letters boot_def Let_def grid_row_def grid_col_def)

subsection \<open>The numeric layout\<close>


subsection \<open>The mode button\<close>

text \<open>
  With 16-bit string hashes the cell of row 0, column 1 carries \<open>wxyz\<close>. Two taps on it
  at 0 and 500 ms leave the buffer \<open>x\<close>, cycle index 1 and press time 500. A tap on the
  mode button at 700 ms changes the mode and clears the active key, but the cycle index
  and the press time keep those values: the multitap state is not the initial one.
\<close>

theorem mode_toggle_counterexample:
  "run_calls qstr_slot [Handle_keyboard_touch 100 60 0, Handle_keyboard_touch 100 60 500,
              Handle_keyboard_touch 100 185 700] boot
     = Inr (boot\<lparr>search_text := ''x'', keyboard_mode := ''ABC'', multitap_key := None,
                 multitap_count := 1, multitap_time := 500\<rparr>)
   \<and> multitap_state (boot\<lparr>search_text := ''x'', keyboard_mode := ''ABC'', multitap_key := None,
                 multitap_count := 1, multitap_time := 500\<rparr>) \<noteq> multitap_state boot"
proof -
  have g: "dict_get multitap_letters ''wxyz'' = Inr [''w'', ''x'', ''y'', ''z'']"
    by (simp add: dict_get_def multitap_letters_def)
  show ?thesis
    by (simp add: do_call_def handle_keyboard_touch_def multitap_press_def append_candidate_def
        Let_def grid_row_def grid_col_def boot_def current_keys_def qstr_letters g
        list_get_def multitap_state_def)
qed

text \<open>
  C6 (as amended). Every tap on the mode cell (row 3, column 1) returns \<open>True\<close>, moves
  \<open>keyboard_mode\<close> one step along \<open>abc\<close>, \<open>ABC\<close>, \<open>123\<close>, \<open>abc\<close>, and sets the active key
  to \<open>None\<close>; the buffer, the cycle index, the press time and everything else stay as
  they were.
\<close>

theorem mode_toggle_cell:
  assumes "90 \<le> x" "x \<le> 150" "170 \<le> y" "y \<le> 200"
  shows "handle_keyboard_touch slot x y current_time s =
     Inr (True, s\<lparr>keyboard_mode := (if keyboard_mode s = ''abc'' then ''ABC''
                                      else if keyboard_mode s = ''ABC'' then ''123''
                                      else ''abc''),
                  multitap_key := None\<rparr>)"
  using assms handle_keyboard_touch_special_cells [of y x slot current_time s]
  by (simp add: grid_row_band grid_col_band)

text \<open>Three taps on the mode button lead from the boot state back to it.\<close>

theorem mode_toggle_cell_witness:
  "handle_keyboard_touch qstr_slot 100 185 0 boot = Inr (True, boot\<lparr>keyboard_mode := ''ABC''\<rparr>)
   \<and> handle_keyboard_touch qstr_slot 100 185 0 (boot\<lparr>keyboard_mode := ''ABC''\<rparr>)
        = Inr (True, boot\<lparr>keyboard_mode := ''123''\<rparr>)
   \<and> handle_keyboard_touch qstr_slot 100 185 0 (boot\<lparr>keyboard_mode := ''123''\<rparr>) = Inr (True, boot)"
  using mode_toggle_cell [of 100 185 qstr_slot 0 boot]
    mode_toggle_cell [of 100 185 qstr_slot 0 "boot\<lparr>keyboard_mode := ''ABC''\<rparr>"]
    mode_toggle_cell [of 100 185 qstr_slot 0 "boot\<lparr>keyboard_mode := ''123''\<rparr>"]
  by (simp add: boot_def)

subsection \<open>The backspace button\<close>

text \<open>
  Two taps on the cell of row 0, column 1 and one on backspace empty the buffer again and
  leave cycle index 1 and press time 500. Backspace on this empty buffer returns \<open>True\<close>
  and changes nothing, so the multitap state still differs from the initial one.
\<close>

theorem backspace_counterexample:
  "run_calls qstr_slot [Handle_keyboard_touch 100 60 0, Handle_keyboard_touch 100 60 500,
              Handle_keyboard_touch 50 185 600] boot
     = Inr (boot\<lparr>multitap_count := 1, multitap_time := 500\<rparr>)
   \<and> search_text (boot\<lparr>multitap_count := 1, multitap_time := 500\<rparr>) = []
   \<and> handle_keyboard_touch qstr_slot 50 185 700 (boot\<lparr>multitap_count := 1, multitap_time := 500\<rparr>)
     = Inr (True, boot\<lparr>multitap_count := 1, multitap_time := 500\<rparr>)
   \<and> multitap_state (boot\<lparr>multitap_count := 1, multitap_time := 500\<rparr>) \<noteq> multitap_state boot"
proof -
  have g: "dict_get multitap_letters ''wxyz'' = Inr [''w'', ''x'', ''y'', ''z'']"
    by (simp add: dict_get_def multitap_letters_def)
  show ?thesis
    by (simp add: do_call_def handle_keyboard_touch_def multitap_press_def append_candidate_def
        Let_def grid_row_def grid_col_def boot_def current_keys_def qstr_letters g
        list_get_def multitap_state_def)
qed

text \<open>
  C7 (as amended). Every tap on the backspace cell (row 3, column 0) returns \<open>True\<close>
  and raises nothing. An empty buffer stays empty, a non-empty one loses exactly its last
  character. The active key becomes \<open>None\<close>; the cycle index and the press time are not
  touched.
\<close>

theorem backspace_cell:
  assumes "20 \<le> x" "x \<le> 80" "170 \<le> y" "y \<le> 200"
  shows "handle_keyboard_touch slot x y current_time s =
     Inr (True, s\<lparr>search_text := (if search_text s = [] then [] else butlast (search_text s)),
                  multitap_key := None\<rparr>)"
  using assms handle_keyboard_touch_special_cells [of y x slot current_time s]
  by (simp add: grid_row_band grid_col_band)

text \<open>Backspace on the empty buffer of the boot state, and on the buffer \<open>ed\<close>.\<close>

theorem backspace_cell_witness:
  "handle_keyboard_touch qstr_slot 50 185 0 boot = Inr (True, boot)
   \<and> handle_keyboard_touch qstr_slot 50 185 0 (boot\<lparr>search_text := ''ed''\<rparr>)
        = Inr (True, boot\<lparr>search_text := ''e''\<rparr>)"
  using backspace_cell [of 50 185 qstr_slot 0 boot]
    backspace_cell [of 50 185 qstr_slot 0 "boot\<lparr>search_text := ''ed''\<rparr>"]
  by (simp add: boot_def)

subsection \<open>Swipes\<close>

lemma detect_swipe_lift:
  "detect_swipe None s = (s\<lparr>last_touch_x := None, last_touch_y := None\<rparr>, 0)"
  by (simp add: detect_swipe_def)

lemma detect_swipe_first_contact:
  assumes "last_touch_x s = None \<or> last_touch_y s = None"
  shows "detect_swipe (Some td) s =
           (s\<lparr>last_touch_x := Some (touch_x td), last_touch_y := Some (touch_y td)\<rparr>, 0)"
  using assms
  by (cases "last_touch_x s"; cases "last_touch_y s") (simp_all add: detect_swipe_def Let_def)

lemma detect_swipe_main_step:
  assumes "last_touch_x s = Some lx" and "last_touch_y s = Some ly"
    and "\<bar>touch_y td - ly\<bar> > 50 \<and> \<bar>touch_y td - ly\<bar> > \<bar>touch_x td - lx\<bar>"
  shows "detect_swipe (Some td) s =
           (s\<lparr>main_menu := (if touch_y td - ly > 0 then (main_menu s + 1) mod 5
                              else (main_menu s - 1) mod 5),
              sub_menu := 0, last_touch_x := None, last_touch_y := None\<rparr>, 300)"
  unfolding detect_swipe_def Let_def using assms by (simp only: option.case prod.case if_True simp_thms)

lemma detect_swipe_sub_step:
  assumes "last_touch_x s = Some lx" and "last_touch_y s = Some ly"
    and "\<not> (\<bar>touch_y td - ly\<bar> > 50 \<and> \<bar>touch_y td - ly\<bar> > \<bar>touch_x td - lx\<bar>)"
    and "\<bar>touch_x td - lx\<bar> > 40 \<and> \<bar>touch_x td - lx\<bar> > \<bar>touch_y td - ly\<bar>"
  shows "detect_swipe (Some td) s =
           (s\<lparr>sub_menu := (if get_max_submenus (main_menu s) > 1
                             then (if touch_x td - lx < 0
                                   then (sub_menu s + 1) mod get_max_submenus (main_menu s)
                                   else (sub_menu s - 1) mod get_max_submenus (main_menu s))
                             else sub_menu s),
              last_touch_x := None, last_touch_y := None\<rparr>, 300)"
  unfolding detect_swipe_def Let_def using assms
  by (simp only: option.case prod.case if_True if_False simp_thms)

lemma detect_swipe_drag:
  assumes "last_touch_x s = Some lx" and "last_touch_y s = Some ly"
    and "\<not> (\<bar>touch_y td - ly\<bar> > 50 \<and> \<bar>touch_y td - ly\<bar> > \<bar>touch_x td - lx\<bar>)"
    and "\<not> (\<bar>touch_x td - lx\<bar> > 40 \<and> \<bar>touch_x td - lx\<bar> > \<bar>touch_y td - ly\<bar>)"
  shows "detect_swipe (Some td) s =
           (s\<lparr>last_touch_x := Some (touch_x td), last_touch_y := Some (touch_y td)\<rparr>, 0)"
  unfolding detect_swipe_def Let_def using assms
  by (simp only: option.case prod.case if_False simp_thms)

text \<open>
  C4. With an anchor \<open>(lx, ly)\<close> set and a sample whose \<open>dy = y - ly\<close> has \<open>|dy| > 50\<close> and
  \<open>|dy| > |dx|\<close>, \<open>detect_swipe\<close> moves \<open>main_menu\<close> by the sign of \<open>dy\<close> modulo 5 (plus
  one for \<open>dy > 0\<close>, minus one for \<open>dy < 0\<close>), sets \<open>sub_menu\<close> to 0, clears both anchor
  coordinates and sleeps 300 ms. Nothing else changes, so the horizontal branch has no
  effect on that call.
\<close>

theorem detect_swipe_vertical:
  assumes "last_touch_x s = Some lx" and "last_touch_y s = Some ly"
    and "\<bar>touch_y td - ly\<bar> > 50" and "\<bar>touch_y td - ly\<bar> > \<bar>touch_x td - lx\<bar>"
  shows "detect_swipe (Some td) s =
           (s\<lparr>main_menu := (main_menu s + sgn (touch_y td - ly)) mod 5,
              sub_menu := 0, last_touch_x := None, last_touch_y := None\<rparr>, 300)
         \<and> (touch_y td - ly > 0 \<longrightarrow> sgn (touch_y td - ly) = 1)
         \<and> (touch_y td - ly < 0 \<longrightarrow> sgn (touch_y td - ly) = - 1)"
proof -
  from assms(3) have "touch_y td - ly \<noteq> 0" by simp
  then show ?thesis
    using detect_swipe_main_step [OF assms(1,2), of td] assms(3,4)
    by (simp add: sgn_if)
qed

text \<open>A swipe down from the last menu wraps to 0; a swipe up from menu 0 wraps to 4.\<close>

theorem detect_swipe_vertical_witness:
  "detect_swipe (Some \<lparr>touch_x = 130, touch_y = 180, touch_points = 1\<rparr>)
       (boot\<lparr>main_menu := 4, last_touch_x := Some 120, last_touch_y := Some 120\<rparr>)
     = (boot\<lparr>main_menu := 0\<rparr>, 300)
   \<and> detect_swipe (Some \<lparr>touch_x = 130, touch_y = 60, touch_points = 1\<rparr>)
       (boot\<lparr>sub_menu := 1, last_touch_x := Some 120, last_touch_y := Some 120\<rparr>)
     = (boot\<lparr>main_menu := 4\<rparr>, 300)"
  using detect_swipe_vertical [of "boot\<lparr>main_menu := 4, last_touch_x := Some 120, last_touch_y := Some 120\<rparr>"
      120 120 "\<lparr>touch_x = 130, touch_y = 180, touch_points = 1\<rparr>"]
    detect_swipe_vertical [of "boot\<lparr>sub_menu := 1, last_touch_x := Some 120, last_touch_y := Some 120\<rparr>"
      120 120 "\<lparr>touch_x = 130, touch_y = 60, touch_points = 1\<rparr>"]
  by (simp add: boot_def)

text \<open>
  C5. With an anchor set and a sample whose \<open>dx = x - lx\<close> has \<open>|dx| > 40\<close> and
  \<open>|dx| > |dy|\<close>: when the current main menu has at most one submenu, \<open>sub_menu\<close> keeps
  its value; otherwise it becomes \<open>(sub_menu + 1) mod max\<close> for \<open>dx < 0\<close> and
  \<open>(sub_menu - 1) mod max\<close> for \<open>dx > 0\<close>. \<open>main_menu\<close> is unchanged, the anchor is
  cleared in both cases, and the call sleeps 300 ms.
\<close>

theorem detect_swipe_horizontal:
  assumes "last_touch_x s = Some lx" and "last_touch_y s = Some ly"
    and "\<bar>touch_x td - lx\<bar> > 40" and "\<bar>touch_x td - lx\<bar> > \<bar>touch_y td - ly\<bar>"
  shows "detect_swipe (Some td) s =
           (s\<lparr>sub_menu :=
                (if get_max_submenus (main_menu s) \<le> 1 then sub_menu s
                 else if touch_x td - lx < 0
                   then (sub_menu s + 1) mod get_max_submenus (main_menu s)
                   else (sub_menu s - 1) mod get_max_submenus (main_menu s)),
              last_touch_x := None, last_touch_y := None\<rparr>, 300)"
proof -
  from assms(4) have "\<not> (\<bar>touch_y td - ly\<bar> > 50 \<and> \<bar>touch_y td - ly\<bar> > \<bar>touch_x td - lx\<bar>)"
    by simp
  from detect_swipe_sub_step [OF assms(1,2) this] assms(3,4) show ?thesis
    by (simp add: get_max_submenus_def)
qed

text \<open>
  On the weather menu a left swipe gives submenu 1 and the next one wraps to 0; on the
  crypto menu the submenu stays 0; a right swipe from submenu 0 of the weather menu wraps
  to 1.
\<close>

theorem detect_swipe_horizontal_witness:
  "detect_swipe (Some \<lparr>touch_x = 60, touch_y = 125, touch_points = 1\<rparr>)
       (boot\<lparr>main_menu := 1, last_touch_x := Some 120, last_touch_y := Some 120\<rparr>)
     = (boot\<lparr>main_menu := 1, sub_menu := 1\<rparr>, 300)
   \<and> detect_swipe (Some \<lparr>touch_x = 60, touch_y = 125, touch_points = 1\<rparr>)
       (boot\<lparr>main_menu := 1, sub_menu := 1, last_touch_x := Some 120, last_touch_y := Some 120\<rparr>)
     = (boot\<lparr>main_menu := 1\<rparr>, 300)
   \<and> detect_swipe (Some \<lparr>touch_x = 60, touch_y = 125, touch_points = 1\<rparr>)
       (boot\<lparr>main_menu := 2, last_touch_x := Some 120, last_touch_y := Some 120\<rparr>)
     = (boot\<lparr>main_menu := 2\<rparr>, 300)
   \<and> detect_swipe (Some \<lparr>touch_x = 180, touch_y = 125, touch_points = 1\<rparr>)
       (boot\<lparr>main_menu := 1, last_touch_x := Some 120, last_touch_y := Some 120\<rparr>)
     = (boot\<lparr>main_menu := 1, sub_menu := 1\<rparr>, 300)"
  using detect_swipe_horizontal [of "boot\<lparr>main_menu := 1, last_touch_x := Some 120, last_touch_y := Some 120\<rparr>"
      120 120 "\<lparr>touch_x = 60, touch_y = 125, touch_points = 1\<rparr>"]
    detect_swipe_horizontal [of "boot\<lparr>main_menu := 1, sub_menu := 1, last_touch_x := Some 120, last_touch_y := Some 120\<rparr>"
      120 120 "\<lparr>touch_x = 60, touch_y = 125, touch_points = 1\<rparr>"]
    detect_swipe_horizontal [of "boot\<lparr>main_menu := 2, last_touch_x := Some 120, last_touch_y := Some 120\<rparr>"
      120 120 "\<lparr>touch_x = 60, touch_y = 125, touch_points = 1\<rparr>"]
    detect_swipe_horizontal [of "boot\<lparr>main_menu := 1, last_touch_x := Some 120, last_touch_y := Some 120\<rparr>"
      120 120 "\<lparr>touch_x = 180, touch_y = 125, touch_points = 1\<rparr>"]
  by (simp add: boot_def get_max_submenus_def)

subsection \<open>The menu position stays in range\<close>

text \<open>On the five menus the specification's table agrees with \<open>get_max_submenus\<close>.\<close>

lemma maxSub_get_max_submenus:
  assumes "0 \<le> m" and "m < 5"
  shows "maxSub m = Some (get_max_submenus m)"
proof -
  from assms consider "m = 0" | "m = 1" | "m = 2" | "m = 3" | "m = 4" by linarith
  then show ?thesis
    by cases (simp_all add: maxSub_def get_max_submenus_def)
qed

lemma menu_invariant_iff:
  "menu_invariant s \<longleftrightarrow>
     0 \<le> main_menu s \<and> main_menu s < 5 \<and> sub_menu s < get_max_submenus (main_menu s)"
  using maxSub_get_max_submenus [of "main_menu s"]
  by (auto simp add: menu_invariant_def)

lemma menu_invariant_navigation:
  "navigation_state s' = navigation_state s \<Longrightarrow> menu_invariant s' = menu_invariant s"
  by (simp add: menu_invariant_iff navigation_state_def)

lemma detect_swipe_menu_invariant:
  assumes "menu_invariant s"
  shows "menu_invariant (fst (detect_swipe touch_data s))"
proof (cases touch_data)
  case None
  with assms show ?thesis
    by (simp add: detect_swipe_lift menu_invariant_iff)
next
  case (Some td)
  show ?thesis
  proof (cases "last_touch_x s = None \<or> last_touch_y s = None")
    case True
    from detect_swipe_first_contact [OF this, of td] assms Some show ?thesis
      by (simp add: menu_invariant_iff)
  next
    case False
    then obtain lx ly where a: "last_touch_x s = Some lx" "last_touch_y s = Some ly" by auto
    let ?V = "\<bar>touch_y td - ly\<bar> > 50 \<and> \<bar>touch_y td - ly\<bar> > \<bar>touch_x td - lx\<bar>"
    let ?H = "\<bar>touch_x td - lx\<bar> > 40 \<and> \<bar>touch_x td - lx\<bar> > \<bar>touch_y td - ly\<bar>"
    consider (v) ?V | (h) "\<not> ?V" ?H | (d) "\<not> ?V" "\<not> ?H" by blast
    then show ?thesis
    proof cases
      case v
      define m where "m = (if touch_y td - ly > 0 then (main_menu s + 1) mod 5
                           else (main_menu s - 1) mod 5)"
      have r: "0 \<le> m" "m < 5"
        unfolding m_def by simp_all
      have "detect_swipe (Some td) s =
              (s\<lparr>main_menu := m, sub_menu := 0, last_touch_x := None, last_touch_y := None\<rparr>, 300)"
        using detect_swipe_main_step [OF a v] unfolding m_def .
      with Some r show ?thesis
        by (simp add: menu_invariant_iff get_max_submenus_def)
    next
      case h
      from detect_swipe_sub_step [OF a h] Some assms show ?thesis
        by (cases "main_menu s = 1") (simp_all add: menu_invariant_iff get_max_submenus_def)
    next
      case d
      from detect_swipe_drag [OF a d] Some assms show ?thesis
        by (simp add: menu_invariant_iff)
    qed
  qed
qed

lemma do_call_menu_invariant:
  assumes "menu_invariant s"
  shows "\<exists>s'. do_call slot c s = Inr s' \<and> menu_invariant s'"
proof (cases c)
  case (Detect_swipe touch_data)
  with assms show ?thesis
    by (simp add: do_call_def detect_swipe_menu_invariant)
next
  case (Handle_keyboard_touch x y t)
  obtain drawn s' where h: "handle_keyboard_touch slot x y t s = Inr (drawn, s')"
    and nav: "navigation_state s' = navigation_state s"
    using handle_keyboard_touch_total by blast
  from menu_invariant_navigation [OF nav] assms have "menu_invariant s'" by simp
  with h Handle_keyboard_touch show ?thesis
    by (simp add: do_call_def)
qed

lemma run_calls_menu_invariant:
  "menu_invariant s \<Longrightarrow> \<exists>s'. run_calls slot cs s = Inr s' \<and> menu_invariant s'"
proof (induction cs arbitrary: s)
  case Nil
  then show ?case by simp
next
  case (Cons c cs)
  from do_call_menu_invariant [OF Cons.prems, where c = c and slot = slot]
  obtain s1 where s1: "do_call slot c s = Inr s1" "menu_invariant s1" by blast
  from Cons.IH [OF s1(2)] s1(1) show ?case by simp
qed

lemma menu_invariant_boot: "menu_invariant boot"
  by (simp add: menu_invariant_def maxSub_def boot_def)

text \<open>
  C2. Whatever calls of \<open>detect_swipe\<close> and \<open>handle_keyboard_touch\<close> are made after
  boot, with whatever arguments, clock readings and dict slots, every prefix of the sequence runs
  without an exception and ends in a state with \<open>0 \<le> main_menu < 5\<close> and
  \<open>sub_menu < maxSub(main_menu)\<close>, for the table \<open>{0:1, 1:2, 2:1, 3:1, 4:1}\<close>.
\<close>

theorem menu_invariant_after_every_call:
  "\<exists>s. run_calls slot (take n calls) boot = Inr s \<and> menu_invariant s"
  using menu_invariant_boot by (rule run_calls_menu_invariant)

subsection \<open>The two consumers of a sample\<close>

lemma detect_swipe_text_entry:
  "text_entry_state (fst (detect_swipe touch_data s)) = text_entry_state s"
proof (cases touch_data)
  case None
  then show ?thesis
    by (simp add: detect_swipe_lift text_entry_state_def multitap_state_def)
next
  case (Some td)
  show ?thesis
  proof (cases "last_touch_x s = None \<or> last_touch_y s = None")
    case True
    from detect_swipe_first_contact [OF this, of td] Some show ?thesis
      by (simp add: text_entry_state_def multitap_state_def)
  next
    case False
    then obtain lx ly where a: "last_touch_x s = Some lx" "last_touch_y s = Some ly" by auto
    let ?V = "\<bar>touch_y td - ly\<bar> > 50 \<and> \<bar>touch_y td - ly\<bar> > \<bar>touch_x td - lx\<bar>"
    let ?H = "\<bar>touch_x td - lx\<bar> > 40 \<and> \<bar>touch_x td - lx\<bar> > \<bar>touch_y td - ly\<bar>"
    consider (v) ?V | (h) "\<not> ?V" ?H | (d) "\<not> ?V" "\<not> ?H" by blast
    then show ?thesis
    proof cases
      case v
      from detect_swipe_main_step [OF a v] Some show ?thesis
        by (simp add: text_entry_state_def multitap_state_def)
    next
      case h
      from detect_swipe_sub_step [OF a h] Some show ?thesis
        by (simp add: text_entry_state_def multitap_state_def)
    next
      case d
      from detect_swipe_drag [OF a d] Some show ?thesis
        by (simp add: text_entry_state_def multitap_state_def)
    qed
  qed
qed

text \<open>What \<open>detect_swipe\<close> does to the menu position and the anchor depends on them alone.\<close>

lemma detect_swipe_navigation_only:
  assumes n: "navigation_state s1 = navigation_state s"
  shows "navigation_state (fst (detect_swipe touch_data s1))
           = navigation_state (fst (detect_swipe touch_data s))
         \<and> snd (detect_swipe touch_data s1) = snd (detect_swipe touch_data s)"
proof -
  from n have e: "main_menu s1 = main_menu s" "sub_menu s1 = sub_menu s"
    "last_touch_x s1 = last_touch_x s" "last_touch_y s1 = last_touch_y s"
    by (simp_all add: navigation_state_def)
  show ?thesis
  proof (cases touch_data)
    case None
    then show ?thesis using e
      by (simp add: detect_swipe_lift navigation_state_def)
  next
    case (Some td)
    show ?thesis
    proof (cases "last_touch_x s = None \<or> last_touch_y s = None")
      case True
      then have "last_touch_x s1 = None \<or> last_touch_y s1 = None" using e by simp
      from detect_swipe_first_contact [OF this, of td] detect_swipe_first_contact [OF True, of td]
        Some e show ?thesis
        by (simp add: navigation_state_def)
    next
      case False
      then obtain lx ly where a: "last_touch_x s = Some lx" "last_touch_y s = Some ly" by auto
      then have a1: "last_touch_x s1 = Some lx" "last_touch_y s1 = Some ly" using e by simp_all
      let ?V = "\<bar>touch_y td - ly\<bar> > 50 \<and> \<bar>touch_y td - ly\<bar> > \<bar>touch_x td - lx\<bar>"
      let ?H = "\<bar>touch_x td - lx\<bar> > 40 \<and> \<bar>touch_x td - lx\<bar> > \<bar>touch_y td - ly\<bar>"
      consider (v) ?V | (h) "\<not> ?V" ?H | (d) "\<not> ?V" "\<not> ?H" by blast
      then show ?thesis
      proof cases
        case v
        from detect_swipe_main_step [OF a v] detect_swipe_main_step [OF a1 v] Some e
        show ?thesis by (simp add: navigation_state_def)
      next
        case h
        from detect_swipe_sub_step [OF a h] detect_swipe_sub_step [OF a1 h] Some e
        show ?thesis by (simp add: navigation_state_def)
      next
        case d
        from detect_swipe_drag [OF a d] detect_swipe_drag [OF a1 d] Some e
        show ?thesis by (simp add: navigation_state_def)
      qed
    qed
  qed
qed

text \<open>
  C10. \<open>detect_swipe\<close> leaves the buffer, the keyboard mode and the three multitap
  variables as they were, for every sample and state. \<open>handle_keyboard_touch\<close> returns a
  value for every tap, clock reading and state, with the menu indices and the anchor as
  they were. On the search screen, where the main loop hands one sample to both, the text
  entry state after the iteration is the one the keyboard left, and the menu indices, the
  anchor and the sleep are what \<open>detect_swipe\<close> alone would have produced from the state
  before the keyboard ran.
\<close>

theorem disjoint_state_footprints:
  "text_entry_state (fst (detect_swipe touch_data s)) = text_entry_state s
   \<and> (\<exists>drawn s'. handle_keyboard_touch slot x y current_time s = Inr (drawn, s')
         \<and> navigation_state s' = navigation_state s)
   \<and> (main_menu s = 3 \<longrightarrow>
        (\<exists>drawn s1 s2 slept.
           handle_keyboard_touch slot (touch_x td) (touch_y td) now s = Inr (drawn, s1)
         \<and> main_loop_touch slot (Some td) now s = Inr (drawn, s2, slept)
         \<and> text_entry_state s2 = text_entry_state s1
         \<and> navigation_state s2 = navigation_state (fst (detect_swipe (Some td) s))
         \<and> slept = snd (detect_swipe (Some td) s)))"
proof (intro conjI impI)
  show "text_entry_state (fst (detect_swipe touch_data s)) = text_entry_state s"
    by (rule detect_swipe_text_entry)
  show "\<exists>drawn s'. handle_keyboard_touch slot x y current_time s = Inr (drawn, s')
         \<and> navigation_state s' = navigation_state s"
    by (rule handle_keyboard_touch_total)
next
  assume m: "main_menu s = 3"
  obtain drawn s1 where h: "handle_keyboard_touch slot (touch_x td) (touch_y td) now s = Inr (drawn, s1)"
    and nav: "navigation_state s1 = navigation_state s"
    using handle_keyboard_touch_total by blast
  obtain s2 slept where d: "detect_swipe (Some td) s1 = (s2, slept)"
    by (cases "detect_swipe (Some td) s1")
  have t: "main_loop_touch slot (Some td) now s = Inr (drawn, s2, slept)"
    using m h d by (simp add: main_loop_touch_def)
  have "text_entry_state s2 = text_entry_state s1"
    using detect_swipe_text_entry [of "Some td" s1] d by simp
  moreover have "navigation_state s2 = navigation_state (fst (detect_swipe (Some td) s))"
    "slept = snd (detect_swipe (Some td) s)"
    using detect_swipe_navigation_only [OF nav, of "Some td"] d by simp_all
  ultimately show "\<exists>drawn s1 s2 slept.
           handle_keyboard_touch slot (touch_x td) (touch_y td) now s = Inr (drawn, s1)
         \<and> main_loop_touch slot (Some td) now s = Inr (drawn, s2, slept)
         \<and> text_entry_state s2 = text_entry_state s1
         \<and> navigation_state s2 = navigation_state (fst (detect_swipe (Some td) s))
         \<and> slept = snd (detect_swipe (Some td) s)"
    using h t by blast
qed

text \<open>
  On the search screen with the anchor at \<open>(100, 100)\<close>, the sample \<open>(100, 185)\<close> is both
  a tap on the mode button and a swipe down to the settings menu.
\<close>

theorem disjoint_state_footprints_witness:
  "main_menu (boot\<lparr>main_menu := 3, last_touch_x := Some 100, last_touch_y := Some 100\<rparr>) = 3
   \<and> main_loop_touch qstr_slot (Some \<lparr>touch_x = 100, touch_y = 185, touch_points = 1\<rparr>) 0
        (boot\<lparr>main_menu := 3, last_touch_x := Some 100, last_touch_y := Some 100\<rparr>)
      = Inr (True, boot\<lparr>main_menu := 4, keyboard_mode := ''ABC''\<rparr>, 300)"
  using disjoint_state_footprints [where touch_data = None
      and s = "boot\<lparr>main_menu := 3, last_touch_x := Some 100, last_touch_y := Some 100\<rparr>"
      and slot = qstr_slot and x = 100 and y = 185 and current_time = 0
      and td = "\<lparr>touch_x = 100, touch_y = 185, touch_points = 1\<rparr>" and now = 0]
  by (simp add: main_loop_touch_def detect_swipe_def handle_keyboard_touch_def
      Let_def grid_row_def grid_col_def boot_def)

subsection \<open>The cooldown\<close>

lemma detect_swipe_sleep:
  "snd (detect_swipe touch_data s) = (if swipe_fires touch_data s then 300 else 0)"
proof (cases touch_data)
  case None
  then show ?thesis by (simp add: detect_swipe_lift swipe_fires_def)
next
  case (Some td)
  show ?thesis
  proof (cases "last_touch_x s = None \<or> last_touch_y s = None")
    case True
    from detect_swipe_first_contact [OF this, of td] True Some show ?thesis
      by (auto simp add: swipe_fires_def split: option.splits)
  next
    case False
    then obtain lx ly where a: "last_touch_x s = Some lx" "last_touch_y s = Some ly" by auto
    let ?V = "\<bar>touch_y td - ly\<bar> > 50 \<and> \<bar>touch_y td - ly\<bar> > \<bar>touch_x td - lx\<bar>"
    let ?H = "\<bar>touch_x td - lx\<bar> > 40 \<and> \<bar>touch_x td - lx\<bar> > \<bar>touch_y td - ly\<bar>"
    have f: "swipe_fires touch_data s = (?V \<or> ?H)"
      using Some a by (simp add: swipe_fires_def Let_def)
    consider (v) ?V | (h) "\<not> ?V" ?H | (d) "\<not> ?V" "\<not> ?H" by blast
    then show ?thesis
    proof cases
      case v
      from detect_swipe_main_step [OF a v] Some f v show ?thesis by simp
    next
      case h
      from detect_swipe_sub_step [OF a h] Some f h show ?thesis by simp
    next
      case d
      from detect_swipe_drag [OF a d] Some f d show ?thesis by simp
    qed
  qed
qed

lemma trace_ok_log:
  assumes "trace_ok l" and "a \<noteq> Swipe_detected True"
  shows "trace_ok (log_activity a l)"
  using assms
  by (auto simp add: trace_ok_def log_activity_def sorted_wrt_append cooldown_kept_def)

lemma trace_ok_sleep:
  assumes "trace_ok l"
  shows "trace_ok (sleep_ms n l)"
  using assms
  by (fastforce simp add: trace_ok_def sleep_ms_def cooldown_kept_def)

lemma trace_ok_fire:
  assumes "trace_ok l"
  shows "trace_ok (sleep_ms 300 (log_activity (Swipe_detected True) l))"
  using assms
  by (fastforce simp add: trace_ok_def log_activity_def sleep_ms_def sorted_wrt_append cooldown_kept_def)

lemma trace_ok_update [simp]:
  "trace_ok (l\<lparr>globals := s\<rparr>) = trace_ok l"
  "trace_ok (l\<lparr>counter := c\<rparr>) = trace_ok l"
  "trace_ok (l\<lparr>last_main := m, last_sub := b\<rparr>) = trace_ok l"
  by (simp_all add: trace_ok_def)

lemma log_activity_globals [simp]:
  "log_activity a (l\<lparr>globals := s\<rparr>) = (log_activity a l)\<lparr>globals := s\<rparr>"
  "sleep_ms n (l\<lparr>globals := s\<rparr>) = (sleep_ms n l)\<lparr>globals := s\<rparr>"
  by (simp_all add: log_activity_def sleep_ms_def)

lemma main_loop_touch_total:
  "\<exists>drawn s' . main_loop_touch slot touch_data now s
       = Inr (drawn, s', if swipe_fires touch_data s then 300 else 0)"
proof -
  let ?k = "case touch_data of
              Some td \<Rightarrow>
                if main_menu s = 3 then handle_keyboard_touch slot (touch_x td) (touch_y td) now s
                else Inr (False, s)
            | None \<Rightarrow> Inr (False, s)"
  have "\<exists>drawn s1. ?k = Inr (drawn, s1) \<and> navigation_state s1 = navigation_state s"
  proof (cases touch_data)
    case None
    then show ?thesis by auto
  next
    case (Some td)
    show ?thesis
    proof (cases "main_menu s = 3")
      case True
      with Some handle_keyboard_touch_total [of slot "touch_x td" "touch_y td" now s]
      show ?thesis by simp
    next
      case False
      with Some show ?thesis by auto
    qed
  qed
  then obtain drawn s1 where h: "?k = Inr (drawn, s1)"
    and nav: "navigation_state s1 = navigation_state s" by blast
  obtain s2 slept where d: "detect_swipe touch_data s1 = (s2, slept)"
    by (cases "detect_swipe touch_data s1")
  have "slept = snd (detect_swipe touch_data s)"
    using detect_swipe_navigation_only [OF nav, of touch_data] d by simp
  then have "slept = (if swipe_fires touch_data s then 300 else 0)"
    by (simp only: detect_swipe_sleep)
  moreover have "main_loop_touch slot touch_data now s = Inr (drawn, s2, slept)"
    unfolding main_loop_touch_def using h d by simp
  ultimately show ?thesis by blast
qed

lemma loop_touch_trace_ok:
  assumes "trace_ok l"
  shows "\<exists>l'. loop_touch slot touch_data l = Inr l' \<and> trace_ok l'"
proof -
  define l1 where "l1 = log_activity Touch_polled l"
  have ok1: "trace_ok l1" unfolding l1_def using assms by (rule trace_ok_log) simp
  obtain drawn s where m: "main_loop_touch slot touch_data (ticks_ms l1) (globals l1)
       = Inr (drawn, s, if swipe_fires touch_data (globals l1) then 300 else 0)"
    using main_loop_touch_total by blast
  define l2 where "l2 = (if touch_data \<noteq> None \<and> main_menu (globals l1) = 3
                     then log_activity Keyboard_handled l1 else l1)"
  define l3 where "l3 = (if drawn then log_activity Screen_drawn l2 else l2)"
  have ok2: "trace_ok l2" unfolding l2_def using ok1 by (simp add: trace_ok_log)
  have ok3: "trace_ok l3" unfolding l3_def using ok2 by (simp add: trace_ok_log)
  show ?thesis
  proof (cases "swipe_fires touch_data (globals l1)")
    case True
    with m have "loop_touch slot touch_data l
        = Inr ((sleep_ms 300 (log_activity (Swipe_detected True) l3))\<lparr>globals := s\<rparr>)"
      by (simp add: loop_touch_def Let_def l1_def l2_def l3_def)
    with trace_ok_fire [OF ok3] show ?thesis by simp
  next
    case False
    with m have "loop_touch slot touch_data l
        = Inr ((sleep_ms 0 (log_activity (Swipe_detected False) l3))\<lparr>globals := s\<rparr>)"
      by (simp add: loop_touch_def Let_def l1_def l2_def l3_def)
    moreover have "trace_ok (sleep_ms 0 (log_activity (Swipe_detected False) l3))"
      by (rule trace_ok_sleep, rule trace_ok_log [OF ok3]) simp
    ultimately show ?thesis by simp
  qed
qed

lemma loop_iteration_trace_ok:
  assumes "trace_ok l"
  shows "\<exists>l'. loop_iteration slot input l = Inr l' \<and> trace_ok l'"
proof -
  obtain touch_data wifi where i: "input = (touch_data, wifi)" by (cases input)
  have "\<exists>l1. (if touch_enabled l then loop_touch slot touch_data l else Inr l) = Inr l1 \<and> trace_ok l1"
    using loop_touch_trace_ok [OF assms, where touch_data = touch_data and slot = slot] assms by simp
  then obtain l1 where t: "(if touch_enabled l then loop_touch slot touch_data l else Inr l) = Inr l1"
    and ok1: "trace_ok l1" by blast
  define l2 where "l2 = (if counter l1 mod 6000 = 0 \<and> counter l1 > 0 \<and> wifi
                     then log_activity Data_fetched l1 else l1)"
  define l3 where "l3 = (if counter l2 mod 3000 = 0 \<and> counter l2 > 0 \<and> wifi
                     then log_activity Data_fetched l2 else l2)"
  define l4 where "l4 = (if main_menu (globals l3) \<noteq> last_main l3 \<or> sub_menu (globals l3) \<noteq> last_sub l3
                     then log_activity Screen_drawn
                            (l3\<lparr>last_main := main_menu (globals l3),
                                last_sub := sub_menu (globals l3)\<rparr>)
                     else if main_menu (globals l3) = 0 \<and> counter l3 mod 10 = 0
                     then log_activity Screen_drawn l3
                     else l3)"
  define l5 where "l5 = sleep_ms 100 l4"
  have ok2: "trace_ok l2" unfolding l2_def using ok1 by (simp add: trace_ok_log)
  have ok3: "trace_ok l3" unfolding l3_def using ok2 by (simp add: trace_ok_log)
  have ok4: "trace_ok l4" unfolding l4_def using ok3 by (simp add: trace_ok_log)
  have ok5: "trace_ok l5" unfolding l5_def using ok4 by (rule trace_ok_sleep)
  have "loop_iteration slot input l = Inr (l5\<lparr>counter := counter l5 + 1\<rparr>)"
    unfolding loop_iteration_def i l5_def l4_def l3_def l2_def using t
    by (simp add: Let_def)
  with ok5 show ?thesis by simp
qed

lemma run_loop_trace_ok:
  "trace_ok l \<Longrightarrow> \<exists>l'. run_loop slot inputs l = Inr l' \<and> trace_ok l'"
proof (induction inputs arbitrary: l)
  case Nil
  then show ?case by simp
next
  case (Cons input inputs)
  from loop_iteration_trace_ok [OF Cons.prems, where input = input and slot = slot]
  obtain l1 where l1: "loop_iteration slot input l = Inr l1" "trace_ok l1" by blast
  from Cons.IH [OF l1(2)] l1(1) show ?case by simp
qed

text \<open>
  C8. \<open>detect_swipe\<close> sleeps 300 ms exactly when the vertical or the horizontal threshold
  is met against a set anchor, and not otherwise. In every run of the main loop that
  starts with an empty trace, no iteration raises, and every trace entry after a call of
  \<open>detect_swipe\<close> that fired at time \<open>t\<close> (a poll of the touch controller, a keyboard
  call, a drawing, a fetch, the next call of \<open>detect_swipe\<close>) has a time of at least
  \<open>t + 300\<close>.
\<close>

theorem cooldown_stalls_the_loop:
  assumes "trace l0 = []"
  shows "snd (detect_swipe touch_data s) = (if swipe_fires touch_data s then 300 else 0)
    \<and> (\<exists>l. run_loop slot inputs l0 = Inr l
          \<and> (\<forall>i j t. i < j \<and> j < length (trace l) \<and> trace l ! i = (t, Swipe_detected True)
                \<longrightarrow> t + 300 \<le> fst (trace l ! j)))"
proof
  show "snd (detect_swipe touch_data s) = (if swipe_fires touch_data s then 300 else 0)"
    by (rule detect_swipe_sleep)
next
  have "trace_ok l0" using assms by (simp add: trace_ok_def)
  from run_loop_trace_ok [OF this, where inputs = inputs and slot = slot]
  obtain l where l: "run_loop slot inputs l0 = Inr l" and ok: "trace_ok l" by blast
  have "t + 300 \<le> fst (trace l ! j)"
    if "i < j" "j < length (trace l)" "trace l ! i = (t, Swipe_detected True)" for i j t
  proof -
    from ok have "sorted_wrt cooldown_kept (trace l)" by (simp add: trace_ok_def)
    with that(1,2) have "cooldown_kept (trace l ! i) (trace l ! j)"
      by (simp add: sorted_wrt_iff_nth_less)
    with that(3) show ?thesis by (simp add: cooldown_kept_def)
  qed
  with l show "\<exists>l. run_loop slot inputs l0 = Inr l
          \<and> (\<forall>i j t. i < j \<and> j < length (trace l) \<and> trace l ! i = (t, Swipe_detected True)
                \<longrightarrow> t + 300 \<le> fst (trace l ! j))"
    by blast
qed

text \<open>
  Three iterations after boot with the finger at \<open>(120, 120)\<close>, then twice at
  \<open>(120, 180)\<close>: the swipe fires at 100 ms and the next entry, the redraw, is at 400 ms.
\<close>

theorem cooldown_stalls_the_loop_witness:
  "trace boot_loop = []
   \<and> (\<exists>l. run_loop qstr_slot [(Some \<lparr>touch_x = 120, touch_y = 120, touch_points = 1\<rparr>, False),
                  (Some \<lparr>touch_x = 120, touch_y = 180, touch_points = 1\<rparr>, False),
                  (Some \<lparr>touch_x = 120, touch_y = 180, touch_points = 1\<rparr>, False)] boot_loop = Inr l
     \<and> trace l = [(0, Touch_polled), (0, Swipe_detected False), (0, Screen_drawn),
                  (100, Touch_polled), (100, Swipe_detected True), (400, Screen_drawn),
                  (500, Touch_polled), (500, Swipe_detected False)])"
  using cooldown_stalls_the_loop [where ?l0.0 = boot_loop and touch_data = None and s = boot
      and slot = qstr_slot and inputs =
      "[(Some \<lparr>touch_x = 120, touch_y = 120, touch_points = 1\<rparr>, False),
        (Some \<lparr>touch_x = 120, touch_y = 180, touch_points = 1\<rparr>, False),
        (Some \<lparr>touch_x = 120, touch_y = 180, touch_points = 1\<rparr>, False)]"]
  by (simp add: boot_loop_def boot_def loop_iteration_def loop_touch_def main_loop_touch_def
      detect_swipe_def log_activity_def sleep_ms_def Let_def)

end
